theory Spec2Isabelle
  imports Main "HOL-Library.Sublist"
begin

section \<open>The model catalog (ai_diffusion.resources)\<close>

text \<open>
  The script \<^verbatim>\<open>scripts/download_models.py\<close> imports its catalog from the package
  \<^verbatim>\<open>ai_diffusion.resources\<close>. The types below carry the attributes the script reads:
  \<^verbatim>\<open>m.id.identifier\<close>, \<^verbatim>\<open>m.id.string\<close>, \<^verbatim>\<open>m.name\<close>, \<^verbatim>\<open>m.arch\<close>, \<^verbatim>\<open>m.kind\<close>, \<^verbatim>\<open>m.files\<close>,
  \<^verbatim>\<open>file.path\<close>, \<^verbatim>\<open>file.url\<close>. The catalog lists themselves are a parameter of every
  definition that reads them.
\<close>

text \<open>Modelled from the spec: the enum \<^verbatim>\<open>Arch\<close>, restricted to the members the script names.\<close>

datatype Arch = Arch_all | Arch_sd15 | Arch_sdxl | Arch_flux | Arch_illu | Arch_illu_v

text \<open>Modelled from the spec: the enum \<^verbatim>\<open>ResourceKind\<close> (checkpoint, upscaler, controlnet,
  ip-adapter, clip-vision, other).\<close>

datatype ResourceKind =
    ResourceKind_checkpoint
  | ResourceKind_upscaler
  | ResourceKind_controlnet
  | ResourceKind_ip_adapter
  | ResourceKind_clip_vision
  | ResourceKind_other

text \<open>A path is the list of its components; \<^verbatim>\<open>file.path\<close> is relative to the destination.\<close>

type_synonym Path = "string list"

text \<open>Modelled from the spec: a file of the catalog, a remote URL and a relative path.\<close>

record ModelFile =
  path :: Path
  url :: string

text \<open>Modelled from the spec: the identity of a model; \<open>id_string\<close> is the attribute
  \<^verbatim>\<open>id.string\<close> that the exclusion list is matched against.\<close>

record ResourceId =
  id_identifier :: string
  id_string :: string

text \<open>Modelled from the spec: a catalog entry; \<open>model_id\<close> is the attribute \<^verbatim>\<open>m.id\<close>.\<close>

record ModelResource =
  model_id :: ResourceId
  name :: string
  arch :: Arch
  kind :: ResourceKind
  files :: "ModelFile list"

text \<open>The module-level lists of \<^verbatim>\<open>ai_diffusion.resources\<close> that the script reads.\<close>

record resources =
  required_models :: "ModelResource list"
  default_checkpoints :: "ModelResource list"
  optional_models :: "ModelResource list"
  upscale_models :: "ModelResource list"
  prefetch_models :: "ModelResource list"
  deprecated_models :: "ModelResource list"

section \<open>Exceptions\<close>

datatype exn =
    AssertionError
  | IndexError
  | ValueError
  | OSError
  | ClientConnectionError
  | ClientResponseError nat
  | ClientPayloadError
  | RuntimeError

section \<open>Selection: the first half of main\<close>

text \<open>The keyword parameters of \<^verbatim>\<open>main\<close> that decide the selection.\<close>

record params =
  sd15 :: bool
  sdxl :: bool
  flux :: bool
  illu :: bool
  upscalers :: bool
  checkpoints :: "string list"
  controlnet :: bool
  prefetch :: bool
  deprecated :: bool
  minimal :: bool
  recommended :: bool
  all :: bool
  exclude :: "string list"

text \<open>The list \<^verbatim>\<open>versions\<close> of \<^verbatim>\<open>main\<close> (lines 130 to 139).\<close>

definition main_versions :: "params \<Rightarrow> Arch list" where
  "main_versions a =
     [Arch_all]
     @ (if sd15 a \<or> minimal a \<or> all a then [Arch_sd15] else [])
     @ (if sdxl a \<or> recommended a \<or> all a then [Arch_sdxl] else [])
     @ (if flux a then [Arch_flux] else [])
     @ (if illu a \<or> all a then [Arch_illu, Arch_illu_v] else [])"

text \<open>\<^verbatim>\<open>default_checkpoints[0]\<close>: an empty list raises IndexError.\<close>

definition first_checkpoint :: "resources \<Rightarrow> exn + ModelResource option" where
  "first_checkpoint r =
     (case default_checkpoints r of [] \<Rightarrow> Inl IndexError | m # _ \<Rightarrow> Inr (Some m))"

text \<open>The kinds that the \<^verbatim>\<open>controlnet\<close> category covers (line 155).\<close>

definition kinds :: "ResourceKind list" where
  "kinds = [ResourceKind_controlnet, ResourceKind_ip_adapter, ResourceKind_clip_vision]"

text \<open>
  The set \<^verbatim>\<open>models\<close> of \<^verbatim>\<open>main\<close> after line 162: the assertion of line 126, the
  unions of lines 143 to 160 in their order, and the removal of the excluded ids.
  The only step that can raise is \<^verbatim>\<open>default_checkpoints[0]\<close> of line 148, which is
  evaluated when \<^verbatim>\<open>minimal\<close> is set; its value is \<open>first\<close>.
  \<^verbatim>\<open>sum([minimal, recommended, all])\<close> counts the presets that are set.
\<close>

definition main_models :: "resources \<Rightarrow> params \<Rightarrow> exn + ModelResource set" where
  "main_models r a =
     (if \<not> length (filter (\<lambda>b. b) [minimal a, recommended a, all a]) \<le> 1
      then Inl AssertionError
      else
        case (if minimal a then first_checkpoint r else Inr None) of
          Inl e \<Rightarrow> Inl e
        | Inr first \<Rightarrow>
            let versions = main_versions a;
                models = {};
                models = models \<union> set [m \<leftarrow> default_checkpoints r.
                           all a \<or> id_identifier (model_id m) \<in> set (checkpoints a)];
                models = (if minimal a \<or> recommended a \<or> all a \<or> sd15 a \<or> sdxl a
                          then models \<union> set [m \<leftarrow> required_models r. arch m \<in> set versions]
                          else models);
                models = (if minimal a then models \<union> set_option first else models);
                models = (if recommended a
                          then models \<union> set [m \<leftarrow> default_checkpoints r. arch m = Arch_sdxl]
                          else models);
                models = (if upscalers a \<or> recommended a \<or> all a
                          then models
                               \<union> set [m \<leftarrow> required_models r. kind m = ResourceKind_upscaler]
                               \<union> set (upscale_models r)
                          else models);
                models = (if controlnet a \<or> recommended a \<or> all a
                          then models \<union> set [m \<leftarrow> optional_models r.
                                 kind m \<in> set kinds \<and> arch m \<in> set versions]
                          else models);
                models = (if prefetch a \<or> all a
                          then models \<union> set (prefetch_models r)
                          else models);
                models = (if deprecated a
                          then models \<union> set [m \<leftarrow> deprecated_models r. arch m \<in> set versions]
                          else models)
            in Inr (models - Set.filter (\<lambda>m. id_string (model_id m) \<in> set (exclude a)) models))"

section \<open>The command line: the checkpoint list handed to main\<close>

text \<open>The attributes of the parsed argument namespace that decide the selection
  (lines 196 to 214). \<^verbatim>\<open>args.checkpoint_list\<close> is None when \<^verbatim>\<open>--checkpoint\<close> was never
  given, \<^verbatim>\<open>args.checkpoints\<close> is the bulk flag \<^verbatim>\<open>--checkpoints\<close>.\<close>

record namespace =
  args_minimal :: bool
  args_recommended :: bool
  args_all :: bool
  args_sd15 :: bool
  args_sdxl :: bool
  args_illu :: bool
  args_flux :: bool
  args_checkpoints :: bool
  args_controlnet :: bool
  args_checkpoint_list :: "string list option"
  args_upscalers :: bool
  args_prefetch :: bool
  args_deprecated :: bool

text \<open>The local list \<^verbatim>\<open>checkpoints\<close> of the script body (lines 215 to 224).\<close>

definition script_checkpoints :: "resources \<Rightarrow> namespace \<Rightarrow> string list" where
  "script_checkpoints r args =
     (case args_checkpoint_list args of None \<Rightarrow> [] | Some l \<Rightarrow> l)
     @ (if args_checkpoints args \<and> args_sd15 args
        then [id_identifier (model_id m). m \<leftarrow> default_checkpoints r, arch m = Arch_sd15]
        else [])
     @ (if args_checkpoints args \<and> args_sdxl args
        then [id_identifier (model_id m). m \<leftarrow> default_checkpoints r, arch m = Arch_sdxl]
        else [])
     @ (if args_checkpoints args \<and> args_flux args
        then [id_identifier (model_id m). m \<leftarrow> default_checkpoints r, arch m = Arch_flux]
        else [])
     @ (if args_checkpoints args \<and> args_illu args
        then [id_identifier (model_id m). m \<leftarrow> default_checkpoints r, arch m = Arch_illu]
             @ [id_identifier (model_id m). m \<leftarrow> default_checkpoints r, arch m = Arch_illu_v]
        else [])"

text \<open>The keyword arguments of the call of \<^verbatim>\<open>main\<close> (lines 226 to 244); \<^verbatim>\<open>exclude\<close> is not
  passed and keeps its default, the empty list.\<close>

definition script_params :: "resources \<Rightarrow> namespace \<Rightarrow> params" where
  "script_params r args =
     \<lparr> sd15 = args_sd15 args,
       sdxl = args_sdxl args,
       flux = args_flux args,
       illu = args_illu args,
       upscalers = args_upscalers args,
       checkpoints = script_checkpoints r args,
       controlnet = args_controlnet args,
       prefetch = args_prefetch args,
       deprecated = args_deprecated args,
       minimal = args_minimal args,
       recommended = args_recommended args,
       all = args_all args,
       exclude = [] \<rparr>"

section \<open>URL mapping\<close>

text \<open>\<^verbatim>\<open>str.split(sep)\<close> for a separator of one character.\<close>

fun str_split :: "char \<Rightarrow> string \<Rightarrow> string list" where
  "str_split sep [] = [[]]"
| "str_split sep (c # cs) =
     (if c = sep then [] # str_split sep cs
      else (case str_split sep cs of [] \<Rightarrow> [[c]] | w # ws \<Rightarrow> (c # w) # ws))"

text \<open>\<^verbatim>\<open>sep.join(words)\<close>.\<close>

fun str_join :: "string \<Rightarrow> string list \<Rightarrow> string" where
  "str_join sep [] = []"
| "str_join sep [w] = w"
| "str_join sep (w # v # ws) = w @ sep @ str_join sep (v # ws)"

text \<open>\<^verbatim>\<open>s.replace(old, new)\<close> for a non-empty \<open>old\<close>: every occurrence, found from left
  to right without overlap, is replaced.\<close>

fun replace_occurrences :: "string \<Rightarrow> string \<Rightarrow> string \<Rightarrow> string" where
  "replace_occurrences old new [] = []"
| "replace_occurrences old new (c # cs) =
     (if prefix old (c # cs) then new @ replace_occurrences old new (drop (length old - 1) cs)
      else c # replace_occurrences old new cs)"

text \<open>\<^verbatim>\<open>s.replace(old, new)\<close>; an empty \<open>old\<close> matches before every character and at
  the end.\<close>

definition str_replace :: "string \<Rightarrow> string \<Rightarrow> string \<Rightarrow> string" where
  "str_replace old new s =
     (if old = [] then new @ concat (map (\<lambda>c. c # new) s)
      else replace_occurrences old new s)"

text \<open>\<^verbatim>\<open>_map_url\<close> (lines 47 to 50). \<open>environ\<close> is the value of
  \<^verbatim>\<open>os.environ.get("AI_DIFFUSION_DOWNLOAD_URL")\<close>; the walrus test takes an empty string
  as unset.\<close>

definition map_url :: "string option \<Rightarrow> string \<Rightarrow> string" where
  "map_url environ u =
     (case environ of
        None \<Rightarrow> u
      | Some replace_host \<Rightarrow>
          if replace_host \<noteq> []
          then str_replace (str_join ''/'' (take 3 (str_split CHR ''/'' u))) replace_host u
          else u)"

section \<open>The file system and the network\<close>

text \<open>A file system maps a path to what is there: a directory or a file with its bytes.
  The empty path is the directory all paths are relative to; it always exists.\<close>

datatype node = Dir | File string

type_synonym filesystem = "Path \<Rightarrow> node option"

text \<open>What the program prints, one entry per \<^verbatim>\<open>print\<close> call.\<close>

datatype line =
    Looking_for Path
  | Found_skipping string
  | Downloading string
  | Error_downloading string nat exn
  | Model_name string
  | No_models_selected

text \<open>A response: its status, the chunks of its body, and whether the stream breaks
  after the last of these chunks (a reset connection or a read timeout).\<close>

datatype response = Response nat "string list" bool

text \<open>The session answers the \<open>n\<close>-th request of the run for a URL with a response, or
  not at all (the connection fails).\<close>

type_synonym ClientSession = "nat \<Rightarrow> string \<Rightarrow> response option"

text \<open>The state a download acts on: the files, the URLs requested so far, the output.\<close>

record world =
  fs :: filesystem
  requests :: "string list"
  stdout :: "line list"

definition print :: "line \<Rightarrow> world \<Rightarrow> world" where
  "print l w = w\<lparr>stdout := stdout w @ [l]\<rparr>"

text \<open>\<^verbatim>\<open>Path.exists\<close>.\<close>

definition path_exists :: "filesystem \<Rightarrow> Path \<Rightarrow> bool" where
  "path_exists f p = (p = [] \<or> f p \<noteq> None)"

text \<open>\<^verbatim>\<open>Path.mkdir(exist_ok=True, parents=True)\<close>: every missing ancestor and the path
  itself become directories; a file in the way is an error, and then nothing is made.\<close>

fun mkdir :: "filesystem \<Rightarrow> Path \<Rightarrow> exn + filesystem" where
  "mkdir f [] = Inr f"
| "mkdir f (c # cs) =
     (case mkdir f (butlast (c # cs)) of
        Inl e \<Rightarrow> Inl e
      | Inr f' \<Rightarrow>
          (case f' (c # cs) of
             None \<Rightarrow> Inr (f'(c # cs \<mapsto> Dir))
           | Some Dir \<Rightarrow> Inr f'
           | Some (File _) \<Rightarrow> Inl OSError))"

text \<open>The second equation is unfolded by hand: on a path that is not a literal it would
  rewrite without end.\<close>

declare mkdir.simps(2) [simp del]

text \<open>\<^verbatim>\<open>PurePath.suffix\<close> of a file name: from its last dot on, unless that dot is the
  first or the last character of the name (the rule of Python up to 3.13; later versions
  take a last dot as a suffix too).\<close>

definition path_suffix :: "string \<Rightarrow> string" where
  "path_suffix nm =
     (let ext = rev (takeWhile (\<lambda>c. c \<noteq> CHR ''.'') (rev nm))
      in if CHR ''.'' \<in> set nm \<and> length ext + 1 < length nm \<and> ext \<noteq> []
         then CHR ''.'' # ext else [])"

text \<open>\<^verbatim>\<open>PurePath.with_suffix(suffix)\<close> for a valid suffix: a path with an empty name
  raises ValueError; otherwise the suffix replaces the old one, or is appended when the
  name has none.\<close>

definition with_suffix :: "Path \<Rightarrow> string \<Rightarrow> exn + Path" where
  "with_suffix p sfx =
     (if p = [] \<or> last p = [] then Inl ValueError
      else
        let nm = last p; old_suffix = path_suffix nm
        in if old_suffix = [] then Inr (butlast p @ [nm @ sfx])
           else Inr (butlast p @ [take (length nm - length old_suffix) nm @ sfx]))"

text \<open>\<^verbatim>\<open>open(p, "wb")\<close>: the file is created or truncated; a directory cannot be opened.\<close>

definition open_wb :: "filesystem \<Rightarrow> Path \<Rightarrow> exn + filesystem" where
  "open_wb f p = (case f p of Some Dir \<Rightarrow> Inl OSError | _ \<Rightarrow> Inr (f(p \<mapsto> File [])))"

text \<open>\<^verbatim>\<open>fd.write(chunk)\<close> on the file opened at \<open>p\<close>.\<close>

definition fd_write :: "Path \<Rightarrow> string \<Rightarrow> filesystem \<Rightarrow> filesystem" where
  "fd_write p chunk f = (case f p of Some (File c) \<Rightarrow> f(p \<mapsto> File (c @ chunk)) | _ \<Rightarrow> f)"

text \<open>\<^verbatim>\<open>Path.rename(target)\<close>: the source must exist; a directory at the target is an
  error, a file there is replaced.\<close>

definition rename :: "filesystem \<Rightarrow> Path \<Rightarrow> Path \<Rightarrow> exn + filesystem" where
  "rename f src dst =
     (case f src of
        None \<Rightarrow> Inl OSError
      | Some n \<Rightarrow>
          if src = dst then Inr f
          else if f dst = Some Dir then Inl OSError
          else Inr ((f(src := None))(dst \<mapsto> n)))"

section \<open>The fetch engine\<close>

text \<open>
  What \<^verbatim>\<open>download\<close> does with a response (lines 95 to 101): a status of 400 or more
  raises; otherwise the body is written chunk by chunk to the file named by
  \<^verbatim>\<open>target_file.with_suffix(".part")\<close>, and once the stream has ended that file is renamed
  to \<^verbatim>\<open>target_file\<close>. The progress bar writes to the standard error stream and is
  left out.
\<close>

definition save_response :: "response \<Rightarrow> Path \<Rightarrow> world \<Rightarrow> (exn + unit) \<times> world" where
  "save_response resp target_file w =
     (case resp of
        Response status chunks broken \<Rightarrow>
          if 400 \<le> status then (Inl (ClientResponseError status), w)
          else
            (case with_suffix target_file ''.part'' of
               Inl e \<Rightarrow> (Inl e, w)
             | Inr part \<Rightarrow>
                 (case open_wb (fs w) part of
                    Inl e \<Rightarrow> (Inl e, w)
                  | Inr f \<Rightarrow>
                      (let w = w\<lparr>fs := fold (fd_write part) chunks f\<rparr>
                       in if broken then (Inl ClientPayloadError, w)
                          else
                            (case rename (fs w) part target_file of
                               Inl e \<Rightarrow> (Inl e, w)
                             | Inr f \<Rightarrow> (Inr (), w\<lparr>fs := f\<rparr>))))))"

text \<open>
  The body of the loop of \<^verbatim>\<open>download\<close> for one file (lines 83 to 101). \<open>model_name\<close> is
  \<^verbatim>\<open>model.name\<close>.
\<close>

definition download_file ::
  "ClientSession \<Rightarrow> string option \<Rightarrow> string \<Rightarrow> Path \<Rightarrow> bool \<Rightarrow> bool \<Rightarrow> ModelFile \<Rightarrow> world
   \<Rightarrow> (exn + unit) \<times> world" where
  "download_file client environ model_name destination verbose dry_run file w =
     (let target_file = destination @ path file;
          mapped = map_url environ (url file);
          w = (if verbose then print (Looking_for target_file) w else w)
      in if path_exists (fs w) target_file
         then (Inr (), print (Found_skipping model_name) w)
         else
           (let w = (if verbose then print (Downloading mapped) w else w)
            in (case mkdir (fs w) (butlast target_file) of
                  Inl e \<Rightarrow> (Inl e, w)
                | Inr f \<Rightarrow>
                    (let w = w\<lparr>fs := f\<rparr>
                     in if dry_run then (Inr (), w)
                        else
                          (let resp = client (length (requests w)) mapped;
                               w = w\<lparr>requests := requests w @ [mapped]\<rparr>
                           in (case resp of
                                 None \<Rightarrow> (Inl ClientConnectionError, w)
                               | Some resp \<Rightarrow> save_response resp target_file w))))))"

text \<open>The loop over \<^verbatim>\<open>model.files\<close>: an exception ends it.\<close>

fun download_files ::
  "ClientSession \<Rightarrow> string option \<Rightarrow> string \<Rightarrow> Path \<Rightarrow> bool \<Rightarrow> bool \<Rightarrow> ModelFile list \<Rightarrow> world
   \<Rightarrow> (exn + unit) \<times> world" where
  "download_files client environ model_name destination verbose dry_run [] w = (Inr (), w)"
| "download_files client environ model_name destination verbose dry_run (file # rest) w =
     (case download_file client environ model_name destination verbose dry_run file w of
        (Inl e, w') \<Rightarrow> (Inl e, w')
      | (Inr _, w') \<Rightarrow>
          download_files client environ model_name destination verbose dry_run rest w')"

text \<open>\<^verbatim>\<open>download\<close> (lines 75 to 101).\<close>

definition download ::
  "ClientSession \<Rightarrow> string option \<Rightarrow> ModelResource \<Rightarrow> Path \<Rightarrow> bool \<Rightarrow> bool \<Rightarrow> world
   \<Rightarrow> (exn + unit) \<times> world" where
  "download client environ model destination verbose dry_run w =
     download_files client environ (name model) destination verbose dry_run (files model) w"

text \<open>
  The loop of \<^verbatim>\<open>download_with_retry\<close> (lines 62 to 72) with \<open>k\<close> iterations left, the next
  one numbered \<open>attempt\<close>. A download that returns leaves the loop by \<^verbatim>\<open>break\<close>, which
  skips the \<^verbatim>\<open>else\<close> clause of the loop; the clause runs when the iterations are used up.
\<close>

fun retry_loop ::
  "ClientSession \<Rightarrow> string option \<Rightarrow> ModelResource \<Rightarrow> Path \<Rightarrow> bool \<Rightarrow> bool \<Rightarrow> bool
   \<Rightarrow> nat \<Rightarrow> nat \<Rightarrow> world \<Rightarrow> (exn + unit) \<times> world" where
  "retry_loop client environ model destination verbose dry_run continue_on_error 0 attempt w =
     (if \<not> continue_on_error then (Inl RuntimeError, w) else (Inr (), w))"
| "retry_loop client environ model destination verbose dry_run continue_on_error (Suc k) attempt w =
     (case download client environ model destination verbose dry_run w of
        (Inr _, w') \<Rightarrow> (Inr (), w')
      | (Inl e, w') \<Rightarrow>
          let w' = print (Error_downloading (name model) attempt e) w'
          in if \<not> continue_on_error then (Inl e, w')
             else retry_loop client environ model destination verbose dry_run continue_on_error
                    k (Suc attempt) w')"

text \<open>\<^verbatim>\<open>download_with_retry\<close>: \<^verbatim>\<open>range(retry_attempts)\<close> is empty for a count below one.\<close>

definition download_with_retry ::
  "ClientSession \<Rightarrow> string option \<Rightarrow> ModelResource \<Rightarrow> Path \<Rightarrow> bool \<Rightarrow> bool \<Rightarrow> int \<Rightarrow> bool
   \<Rightarrow> world \<Rightarrow> (exn + unit) \<times> world" where
  "download_with_retry client environ model destination verbose dry_run retry_attempts
     continue_on_error w =
     retry_loop client environ model destination verbose dry_run continue_on_error
       (nat retry_attempts) 0 w"

text \<open>The loop of \<^verbatim>\<open>main\<close> over the selected models (lines 167 to 172), in the order
  that \<^verbatim>\<open>sorted\<close> gave them.\<close>

fun main_loop ::
  "ClientSession \<Rightarrow> string option \<Rightarrow> Path \<Rightarrow> bool \<Rightarrow> bool \<Rightarrow> int \<Rightarrow> bool
   \<Rightarrow> ModelResource list \<Rightarrow> world \<Rightarrow> (exn + unit) \<times> world" where
  "main_loop client environ destination verbose dry_run retry_attempts continue_on_error [] w =
     (Inr (), w)"
| "main_loop client environ destination verbose dry_run retry_attempts continue_on_error
     (model # rest) w =
     (let w = (if verbose then print (Model_name (name model)) w else w)
      in case download_with_retry client environ model destination verbose dry_run
                retry_attempts continue_on_error w of
           (Inl e, w') \<Rightarrow> (Inl e, w')
         | (Inr _, w') \<Rightarrow>
             main_loop client environ destination verbose dry_run retry_attempts
               continue_on_error rest w')"

text \<open>The fetch step of \<^verbatim>\<open>main\<close> (lines 125 and 164 to 172) on the sorted list \<open>models\<close>
  of the selection.\<close>

definition main_fetch ::
  "ClientSession \<Rightarrow> string option \<Rightarrow> Path \<Rightarrow> bool \<Rightarrow> bool \<Rightarrow> int \<Rightarrow> bool
   \<Rightarrow> ModelResource list \<Rightarrow> world \<Rightarrow> (exn + unit) \<times> world" where
  "main_fetch client environ destination verbose dry_run retry_attempts continue_on_error
     models w =
     (let verbose = verbose \<or> dry_run;
          w = (if models = [] then print No_models_selected w else w)
      in main_loop client environ destination verbose dry_run retry_attempts continue_on_error
           models w)"

section \<open>What a run may change\<close>


section \<open>Example inputs\<close>

text \<open>A small catalog in the shape of the real one: each model has one file.\<close>

definition example_model :: "string \<Rightarrow> Arch \<Rightarrow> ResourceKind \<Rightarrow> ModelResource" where
  "example_model n a k =
     \<lparr> model_id = \<lparr> id_identifier = n, id_string = n \<rparr>,
       name = n, arch = a, kind = k,
       files = [\<lparr> path = [''models'', n @ ''.safetensors''],
                  url = ''https://huggingface.co/'' @ n \<rparr>] \<rparr>"

definition example_catalog :: resources where
  "example_catalog =
     \<lparr> required_models =
         [example_model ''clip'' Arch_all ResourceKind_clip_vision,
          example_model ''inpaint15'' Arch_sd15 ResourceKind_other,
          example_model ''inpaintxl'' Arch_sdxl ResourceKind_other,
          example_model ''t5'' Arch_flux ResourceKind_other],
       default_checkpoints =
         [example_model ''realistic'' Arch_sd15 ResourceKind_checkpoint,
          example_model ''dream'' Arch_sd15 ResourceKind_checkpoint,
          example_model ''jugger'' Arch_sdxl ResourceKind_checkpoint],
       optional_models =
         [example_model ''scribble15'' Arch_sd15 ResourceKind_controlnet,
          example_model ''cannyflux'' Arch_flux ResourceKind_controlnet],
       upscale_models = [example_model ''omnisr'' Arch_all ResourceKind_upscaler],
       prefetch_models = [example_model ''prefetched'' Arch_all ResourceKind_other],
       deprecated_models = [example_model ''old15'' Arch_sd15 ResourceKind_ip_adapter] \<rparr>"

text \<open>No flag set, no checkpoint named, nothing excluded.\<close>

definition no_flags :: params where
  "no_flags =
     \<lparr> sd15 = False, sdxl = False, flux = False, illu = False, upscalers = False,
       checkpoints = [], controlnet = False, prefetch = False, deprecated = False,
       minimal = False, recommended = False, all = False, exclude = [] \<rparr>"

definition no_args :: namespace where
  "no_args =
     \<lparr> args_minimal = False, args_recommended = False, args_all = False, args_sd15 = False,
       args_sdxl = False, args_illu = False, args_flux = False, args_checkpoints = False,
       args_controlnet = False, args_checkpoint_list = None, args_upscalers = False,
       args_prefetch = False, args_deprecated = False \<rparr>"

text \<open>A world with no file, no request made and nothing printed.\<close>

definition empty_world :: world where
  "empty_world = \<lparr> fs = Map.empty, requests = [], stdout = [] \<rparr>"

text \<open>A file named as catalog files are, and one whose name ends in \<^verbatim>\<open>.part\<close>.\<close>

definition clip_file :: ModelFile where
  "clip_file = \<lparr> path = [''models'', ''clip.safetensors''],
                  url = ''https://huggingface.co/clip'' \<rparr>"

definition part_named_file :: ModelFile where
  "part_named_file = \<lparr> path = [''models'', ''x.part''], url = ''https://huggingface.co/x'' \<rparr>"

text \<open>Three servers: one whose stream breaks after the first chunk, one that serves every
  request, and one that answers the first request of the run with status 500 and serves
  all later ones.\<close>

definition broken_stream :: ClientSession where
  "broken_stream n u = Some (Response 200 [''ab''] True)"

definition serves_all :: ClientSession where
  "serves_all n u = Some (Response 200 [''ab'', ''cd''] False)"

definition fails_once :: ClientSession where
  "fails_once n u =
     (if n = 0 then Some (Response 500 [] False) else Some (Response 200 [''ab'', ''cd''] False))"

text \<open>A model with the one file \<open>clip_file\<close>, and a world in which that file has been
  downloaded to the destination \<^verbatim>\<open>dest\<close>.\<close>

definition clip_model :: ModelResource where
  "clip_model = example_model ''clip'' Arch_all ResourceKind_clip_vision"



section \<open>Facts about the example inputs\<close>

lemmas select_defs = main_models_def main_versions_def first_checkpoint_def kinds_def Let_def

lemmas fetch_defs = download_file_def save_response_def map_url_def path_exists_def
  with_suffix_def path_suffix_def open_wb_def fd_write_def rename_def print_def Let_def
  mkdir.simps

lemma example_model_sel:
  "name (example_model n a k) = n"
  "arch (example_model n a k) = a"
  "kind (example_model n a k) = k"
  "id_string (model_id (example_model n a k)) = n"
  "id_identifier (model_id (example_model n a k)) = n"
  by (simp_all add: example_model_def)

lemma example_model_eq:
  "example_model n a k = example_model n' a' k' \<longleftrightarrow> n = n' \<and> a = a' \<and> k = k'"
  by (auto simp: example_model_def)

lemma clip_model_files: "files clip_model = [clip_file]" "name clip_model = ''clip''"
  by (simp_all add: clip_model_def example_model_def clip_file_def)


section \<open>Properties of the selection\<close>

lemma main_models_cases:
  "main_models r a = Inl AssertionError \<or> main_models r a = Inl IndexError
   \<or> (\<exists>S. main_models r a = Inr S)"
  by (auto simp: main_models_def first_checkpoint_def Let_def split: list.splits)

text \<open>
  Claim C8. Whatever the flags and the exclusion list, a model whose id string is in the
  exclusion list is not in the selection that \<^verbatim>\<open>main\<close> computes.
\<close>

theorem excluded_not_selected:
  assumes "main_models r a = Inr S" and "m \<in> S"
  shows "id_string (model_id m) \<notin> set (exclude a)"
  using assms
  by (auto simp: main_models_def Let_def split: if_splits sum.splits)

theorem excluded_not_selected_witness:
  "main_models example_catalog (no_flags\<lparr>sd15 := True, exclude := [''clip'']\<rparr>)
     = Inr {example_model ''inpaint15'' Arch_sd15 ResourceKind_other}
   \<and> id_string (model_id (example_model ''inpaint15'' Arch_sd15 ResourceKind_other))
       \<notin> set (exclude (no_flags\<lparr>sd15 := True, exclude := [''clip'']\<rparr>))"
proof -
  let ?a = "no_flags\<lparr>sd15 := True, exclude := [''clip'']\<rparr>"
  let ?m = "example_model ''inpaint15'' Arch_sd15 ResourceKind_other"
  have sel: "main_models example_catalog ?a = Inr {?m}"
    by (auto simp: select_defs example_catalog_def no_flags_def example_model_sel example_model_eq)
  have "?m \<in> {?m}" by simp
  from excluded_not_selected [OF sel this] sel show ?thesis by simp
qed

lemma main_models_minimal:
  assumes "minimal a" and "main_models r a = Inr S"
  shows "\<not> recommended a" and "\<not> all a" and "\<exists>c cs. default_checkpoints r = c # cs"
  using assms
  by (auto simp: main_models_def first_checkpoint_def split: if_splits sum.splits list.splits)

text \<open>
  Claim C6, amended. With \<^verbatim>\<open>minimal\<close> set and no checkpoint named, whenever \<^verbatim>\<open>main\<close>
  computes a selection the default checkpoint list has a first entry, and the selection
  holds that entry and each required model of architecture sd15 or of the wildcard
  architecture exactly when its id string is not excluded. The first entry is the only
  model selected as a default checkpoint: any other default checkpoint in the selection
  is also an entry of the required, upscale, optional, prefetch or deprecated list. With
  \<^verbatim>\<open>minimal\<close> as the only flag the selection is exactly the first entry and those
  required models, less the excluded ones.
\<close>

theorem minimal_selection:
  assumes "minimal a" and "checkpoints a = []" and "main_models r a = Inr S"
  shows "\<exists>c cs. default_checkpoints r = c # cs
     \<and> (c \<in> S \<longleftrightarrow> id_string (model_id c) \<notin> set (exclude a))
     \<and> (\<forall>m \<in> set (required_models r). arch m = Arch_sd15 \<or> arch m = Arch_all \<longrightarrow>
           (m \<in> S \<longleftrightarrow> id_string (model_id m) \<notin> set (exclude a)))
     \<and> (\<forall>m \<in> S \<inter> set (default_checkpoints r).
           m = c \<or> m \<in> set (required_models r) \<union> set (upscale_models r)
                      \<union> set (optional_models r) \<union> set (prefetch_models r)
                      \<union> set (deprecated_models r))
     \<and> (\<not> sd15 a \<and> \<not> sdxl a \<and> \<not> flux a \<and> \<not> illu a \<and> \<not> upscalers a \<and> \<not> controlnet a
          \<and> \<not> prefetch a \<and> \<not> deprecated a \<longrightarrow>
         S = ({c} \<union> {m \<in> set (required_models r). arch m = Arch_sd15 \<or> arch m = Arch_all})
             - {m. id_string (model_id m) \<in> set (exclude a)})"
proof -
  from main_models_minimal [OF assms(1,3)] obtain c cs where
    presets: "\<not> recommended a" "\<not> all a" and dc: "default_checkpoints r = c # cs" by blast
  have first: "c \<in> S \<longleftrightarrow> id_string (model_id c) \<notin> set (exclude a)"
    using assms presets dc by (auto simp: select_defs split: if_splits)
  have required: "\<forall>m \<in> set (required_models r). arch m = Arch_sd15 \<or> arch m = Arch_all \<longrightarrow>
           (m \<in> S \<longleftrightarrow> id_string (model_id m) \<notin> set (exclude a))"
    using assms presets dc by (auto simp: select_defs split: if_splits)
  have others: "\<forall>m \<in> S \<inter> set (default_checkpoints r).
           m = c \<or> m \<in> set (required_models r) \<union> set (upscale_models r)
                      \<union> set (optional_models r) \<union> set (prefetch_models r)
                      \<union> set (deprecated_models r)"
    using assms presets dc by (auto simp: main_models_def first_checkpoint_def Let_def split: if_splits)
  have alone: "\<not> sd15 a \<and> \<not> sdxl a \<and> \<not> flux a \<and> \<not> illu a \<and> \<not> upscalers a \<and> \<not> controlnet a
          \<and> \<not> prefetch a \<and> \<not> deprecated a \<longrightarrow>
         S = ({c} \<union> {m \<in> set (required_models r). arch m = Arch_sd15 \<or> arch m = Arch_all})
             - {m. id_string (model_id m) \<in> set (exclude a)}"
    using assms presets dc by (auto simp: select_defs)
  show ?thesis
    by (intro exI [of _ c] exI [of _ cs] conjI) (rule dc first required others alone)+
qed

theorem minimal_selection_witness:
  "main_models example_catalog (no_flags\<lparr>minimal := True\<rparr>)
     = Inr {example_model ''realistic'' Arch_sd15 ResourceKind_checkpoint,
            example_model ''clip'' Arch_all ResourceKind_clip_vision,
            example_model ''inpaint15'' Arch_sd15 ResourceKind_other}
   \<and> hd (default_checkpoints example_catalog)
       \<in> {example_model ''realistic'' Arch_sd15 ResourceKind_checkpoint,
          example_model ''clip'' Arch_all ResourceKind_clip_vision,
          example_model ''inpaint15'' Arch_sd15 ResourceKind_other}
   \<and> {example_model ''realistic'' Arch_sd15 ResourceKind_checkpoint,
       example_model ''clip'' Arch_all ResourceKind_clip_vision,
       example_model ''inpaint15'' Arch_sd15 ResourceKind_other}
       \<inter> set (default_checkpoints example_catalog)
     = {example_model ''realistic'' Arch_sd15 ResourceKind_checkpoint}"
proof -
  let ?a = "no_flags\<lparr>minimal := True\<rparr>"
  let ?S = "{example_model ''realistic'' Arch_sd15 ResourceKind_checkpoint,
             example_model ''clip'' Arch_all ResourceKind_clip_vision,
             example_model ''inpaint15'' Arch_sd15 ResourceKind_other}"
  have sel: "main_models example_catalog ?a = Inr ?S"
    by (simp add: select_defs example_catalog_def no_flags_def example_model_sel
        example_model_eq insert_commute)
  have flags: "minimal ?a" "checkpoints ?a = []" by (simp_all add: no_flags_def)
  from minimal_selection [OF flags sel]
  have "\<exists>c cs. default_checkpoints example_catalog = c # cs
          \<and> (c \<in> ?S \<longleftrightarrow> id_string (model_id c) \<notin> set (exclude ?a))"
    by (elim exE conjE, intro exI conjI)
  then obtain c cs where
    dc: "default_checkpoints example_catalog = c # cs"
    and first: "c \<in> ?S \<longleftrightarrow> id_string (model_id c) \<notin> set (exclude ?a)"
    by (elim exE conjE)
  from first have "c \<in> ?S" by (simp add: no_flags_def)
  with dc have "hd (default_checkpoints example_catalog) \<in> ?S" by simp
  moreover have "?S \<inter> set (default_checkpoints example_catalog)
                 = {example_model ''realistic'' Arch_sd15 ResourceKind_checkpoint}"
    by (simp add: example_catalog_def example_model_eq)
  ultimately show ?thesis using sel by simp
qed

text \<open>
  Claim C6 as stated fails when the first default checkpoint is excluded: the selection
  then holds no default checkpoint at all.
\<close>

theorem minimal_excluded_first:
  "main_models example_catalog (no_flags\<lparr>minimal := True, exclude := [''realistic'']\<rparr>)
     = Inr {example_model ''clip'' Arch_all ResourceKind_clip_vision,
            example_model ''inpaint15'' Arch_sd15 ResourceKind_other}
   \<and> {example_model ''clip'' Arch_all ResourceKind_clip_vision,
       example_model ''inpaint15'' Arch_sd15 ResourceKind_other}
       \<inter> set (default_checkpoints example_catalog) = {}"
proof -
  have "main_models example_catalog (no_flags\<lparr>minimal := True, exclude := [''realistic'']\<rparr>)
     = Inr {example_model ''clip'' Arch_all ResourceKind_clip_vision,
            example_model ''inpaint15'' Arch_sd15 ResourceKind_other}"
    by (auto simp: select_defs example_catalog_def no_flags_def example_model_sel example_model_eq)
  moreover have "{example_model ''clip'' Arch_all ResourceKind_clip_vision,
       example_model ''inpaint15'' Arch_sd15 ResourceKind_other}
       \<inter> set (default_checkpoints example_catalog) = {}"
    by (simp add: example_catalog_def example_model_eq)
  ultimately show ?thesis by simp
qed

text \<open>
  Claim C10. When none of \<^verbatim>\<open>--sd15\<close>, \<^verbatim>\<open>--sdxl\<close>, \<^verbatim>\<open>--flux\<close>, \<^verbatim>\<open>--illu\<close> is given, the bulk
  flag \<^verbatim>\<open>--checkpoints\<close> adds nothing to the checkpoint list (it stays what
  \<^verbatim>\<open>--checkpoint\<close> named, empty when that was never given), so \<^verbatim>\<open>main\<close> gets the same
  arguments and computes the same selection with the flag as without it.
\<close>

theorem bulk_checkpoints_alone:
  assumes "\<not> args_sd15 args" and "\<not> args_sdxl args" and "\<not> args_flux args"
    and "\<not> args_illu args"
  shows "script_checkpoints r (args\<lparr>args_checkpoints := True\<rparr>)
           = (case args_checkpoint_list args of None \<Rightarrow> [] | Some l \<Rightarrow> l)
         \<and> script_params r (args\<lparr>args_checkpoints := True\<rparr>)
           = script_params r (args\<lparr>args_checkpoints := False\<rparr>)
         \<and> main_models r (script_params r (args\<lparr>args_checkpoints := True\<rparr>))
           = main_models r (script_params r (args\<lparr>args_checkpoints := False\<rparr>))"
  using assms by (simp add: script_checkpoints_def script_params_def)

theorem bulk_checkpoints_alone_witness:
  "script_checkpoints example_catalog (no_args\<lparr>args_checkpoints := True\<rparr>) = []
   \<and> main_models example_catalog
        (script_params example_catalog (no_args\<lparr>args_checkpoints := True\<rparr>))
     = main_models example_catalog (script_params example_catalog no_args)
   \<and> main_models example_catalog (script_params example_catalog no_args) = Inr {}"
proof -
  have flags: "\<not> args_sd15 no_args" "\<not> args_sdxl no_args" "\<not> args_flux no_args"
    "\<not> args_illu no_args"
    by (simp_all add: no_args_def)
  have same: "no_args\<lparr>args_checkpoints := False\<rparr> = no_args"
    by (simp add: no_args_def)
  have none: "args_checkpoint_list no_args = None"
    by (simp add: no_args_def)
  have empty: "main_models example_catalog (script_params example_catalog no_args) = Inr {}"
    by (simp add: select_defs script_params_def script_checkpoints_def no_args_def)
  from bulk_checkpoints_alone [OF flags, of example_catalog] empty
  show ?thesis by (simp add: same none)
qed

text \<open>
  Claim C2, as the code has it. With \<^verbatim>\<open>all\<close> set and neither \<^verbatim>\<open>flux\<close> nor \<^verbatim>\<open>deprecated\<close>,
  the architecture list is the wildcard, sd15, sdxl, illu and illu_v: flux is not in it.
  The selection is made of all default checkpoints, the required models of a listed
  architecture or of kind upscaler, the upscale models, the optional models of the three
  controlnet kinds and a listed architecture, and the prefetch models, less the excluded
  ones: no deprecated model is added, and no model required for flux.
\<close>

theorem all_preset_selection:
  assumes "all a" and "\<not> minimal a" and "\<not> recommended a" and "\<not> flux a"
    and "\<not> deprecated a"
  shows "main_versions a = [Arch_all, Arch_sd15, Arch_sdxl, Arch_illu, Arch_illu_v]
         \<and> Arch_flux \<notin> set (main_versions a)
         \<and> main_models r a
           = Inr (let models =
                        set (default_checkpoints r)
                        \<union> {m \<in> set (required_models r).
                             arch m \<in> {Arch_all, Arch_sd15, Arch_sdxl, Arch_illu, Arch_illu_v}
                             \<or> kind m = ResourceKind_upscaler}
                        \<union> set (upscale_models r)
                        \<union> {m \<in> set (optional_models r).
                             kind m \<in> set kinds
                             \<and> arch m \<in> {Arch_all, Arch_sd15, Arch_sdxl, Arch_illu, Arch_illu_v}}
                        \<union> set (prefetch_models r)
                  in models - {m \<in> models. id_string (model_id m) \<in> set (exclude a)})"
proof -
  have v: "main_versions a = [Arch_all, Arch_sd15, Arch_sdxl, Arch_illu, Arch_illu_v]"
    using assms by (simp add: main_versions_def)
  have "main_models r a
           = Inr (let models =
                        set (default_checkpoints r)
                        \<union> {m \<in> set (required_models r).
                             arch m \<in> {Arch_all, Arch_sd15, Arch_sdxl, Arch_illu, Arch_illu_v}
                             \<or> kind m = ResourceKind_upscaler}
                        \<union> set (upscale_models r)
                        \<union> {m \<in> set (optional_models r).
                             kind m \<in> set kinds
                             \<and> arch m \<in> {Arch_all, Arch_sd15, Arch_sdxl, Arch_illu, Arch_illu_v}}
                        \<union> set (prefetch_models r)
                  in models - {m \<in> models. id_string (model_id m) \<in> set (exclude a)})"
    using assms unfolding main_models_def v by (auto simp: Let_def)
  with v show ?thesis by simp
qed

theorem all_preset_selection_witness:
  "main_versions (no_flags\<lparr>all := True\<rparr>)
     = [Arch_all, Arch_sd15, Arch_sdxl, Arch_illu, Arch_illu_v]
   \<and> example_model ''t5'' Arch_flux ResourceKind_other \<in> set (required_models example_catalog)
   \<and> example_model ''old15'' Arch_sd15 ResourceKind_ip_adapter
       \<in> set (deprecated_models example_catalog)
   \<and> (\<exists>S. main_models example_catalog (no_flags\<lparr>all := True\<rparr>) = Inr S
        \<and> example_model ''t5'' Arch_flux ResourceKind_other \<notin> S
        \<and> example_model ''old15'' Arch_sd15 ResourceKind_ip_adapter \<notin> S)"
proof -
  let ?a = "no_flags\<lparr>all := True\<rparr>"
  have flags: "all ?a" "\<not> minimal ?a" "\<not> recommended ?a" "\<not> flux ?a" "\<not> deprecated ?a"
    by (simp_all add: no_flags_def)
  from all_preset_selection [OF flags, of example_catalog]
  show ?thesis
    by (simp add: example_catalog_def no_flags_def kinds_def Let_def
        example_model_sel example_model_eq)
qed

text \<open>
  Claim C3, as the code has it. In the example catalog the flags \<^verbatim>\<open>sd15\<close> and \<^verbatim>\<open>flux\<close>
  select the model required for flux, and the flag \<^verbatim>\<open>all\<close> alone does not: the
  selection under \<^verbatim>\<open>all\<close> is no superset of it.
\<close>

theorem all_is_no_superset:
  "main_models example_catalog (no_flags\<lparr>sd15 := True, flux := True\<rparr>)
     = Inr {example_model ''clip'' Arch_all ResourceKind_clip_vision,
            example_model ''inpaint15'' Arch_sd15 ResourceKind_other,
            example_model ''t5'' Arch_flux ResourceKind_other}
   \<and> (\<exists>T. main_models example_catalog (no_flags\<lparr>all := True\<rparr>) = Inr T
          \<and> example_model ''t5'' Arch_flux ResourceKind_other \<notin> T)"
proof -
  have "main_models example_catalog (no_flags\<lparr>sd15 := True, flux := True\<rparr>)
     = Inr {example_model ''clip'' Arch_all ResourceKind_clip_vision,
            example_model ''inpaint15'' Arch_sd15 ResourceKind_other,
            example_model ''t5'' Arch_flux ResourceKind_other}"
    by (simp add: select_defs example_catalog_def no_flags_def example_model_sel)
  moreover have "\<exists>T. main_models example_catalog (no_flags\<lparr>all := True\<rparr>) = Inr T
          \<and> example_model ''t5'' Arch_flux ResourceKind_other \<notin> T"
    by (simp add: select_defs example_catalog_def no_flags_def example_model_sel
        example_model_eq)
  ultimately show ?thesis by simp
qed

section \<open>Properties of the URL mapping\<close>

lemma str_split_no_sep: "sep \<notin> set s \<Longrightarrow> str_split sep s = [s]"
  by (induction s) auto

lemma str_split_append:
  "sep \<notin> set s \<Longrightarrow> str_split sep (s @ sep # t) = s # str_split sep t"
  by (induction s) auto

lemma replace_occurrences_prefix:
  "old \<noteq> [] \<Longrightarrow> replace_occurrences old new (old @ t) = new @ replace_occurrences old new t"
  by (cases old) simp_all

lemma replace_occurrences_absent:
  "old \<noteq> [] \<Longrightarrow> \<not> sublist old t \<Longrightarrow> replace_occurrences old new t = t"
  by (induction t) (auto simp: sublist_Cons_right)

text \<open>The first three fields of a URL \<open>scheme//host/...\<close>, joined again, are its scheme
  and host (with the port, when it has one).\<close>

lemma host_part:
  assumes "CHR ''/'' \<notin> set scheme" and "CHR ''/'' \<notin> set host"
    and "rest = [] \<or> hd rest = CHR ''/''"
  shows "str_join ''/'' (take 3 (str_split CHR ''/'' (scheme @ ''//'' @ host @ rest)))
         = scheme @ ''//'' @ host"
proof -
  have "str_split CHR ''/'' (scheme @ ''//'' @ host @ rest)
        = scheme # [] # str_split CHR ''/'' (host @ rest)"
    using assms(1) str_split_append [of "CHR ''/''" scheme "CHR ''/'' # host @ rest"]
    by simp
  moreover have "\<exists>ws. str_split CHR ''/'' (host @ rest) = host # ws"
  proof (cases rest)
    case Nil
    then show ?thesis using assms(2) by (simp add: str_split_no_sep)
  next
    case (Cons c cs)
    with assms(3) have "rest = CHR ''/'' # cs" by simp
    then show ?thesis using assms(2) by (simp add: str_split_append)
  qed
  ultimately show ?thesis by auto
qed

text \<open>
  Claim C9, amended. With a non-empty override, a URL made of a scheme, \<open>//\<close>, a host
  (and port) and a rest that is empty or starts with the slash of the path is mapped to
  the override followed by the rest, provided the scheme and host do not occur again
  inside the rest. Without an override, or with an empty one, the URL is returned as
  it is.
\<close>

theorem map_url_host:
  assumes "replace_host \<noteq> []"
    and "CHR ''/'' \<notin> set scheme" and "CHR ''/'' \<notin> set host"
    and "rest = [] \<or> hd rest = CHR ''/''"
    and "\<not> sublist (scheme @ ''//'' @ host) rest"
  shows "map_url (Some replace_host) (scheme @ ''//'' @ host @ rest) = replace_host @ rest
         \<and> map_url None u = u \<and> map_url (Some []) u = u"
proof -
  let ?p = "scheme @ ''//'' @ host"
  have p: "?p \<noteq> []" by simp
  have "str_replace ?p replace_host (?p @ rest) = replace_host @ rest"
    using replace_occurrences_prefix [OF p, of replace_host rest]
      replace_occurrences_absent [OF p assms(5), of replace_host]
    by (simp add: str_replace_def)
  then show ?thesis
    using assms(1) host_part [OF assms(2,3,4)] by (simp add: map_url_def)
qed

theorem map_url_host_witness:
  "map_url (Some ''http://mirror:8080'') ''https://huggingface.co/a/b.bin''
     = ''http://mirror:8080/a/b.bin''
   \<and> map_url None ''https://huggingface.co/a/b.bin'' = ''https://huggingface.co/a/b.bin''"
proof -
  have "\<not> sublist (''https:'' @ ''//'' @ ''huggingface.co'') ''/a/b.bin''"
    by (simp add: sublist_Cons_right prefix_Cons)
  from map_url_host [of "''http://mirror:8080''" "''https:''" "''huggingface.co''" "''/a/b.bin''",
      OF _ _ _ _ this, of "''https://huggingface.co/a/b.bin''"]
  show ?thesis by simp
qed

text \<open>
  Claim C9 as stated fails: every occurrence of the scheme and host is replaced, so a
  URL that holds them a second time does not keep its rest unchanged.
\<close>

theorem map_url_repeated_host:
  "map_url (Some ''http://m'') ''https://h/a/https://h/b'' = ''http://m/a/http://m/b''
   \<and> map_url (Some ''http://m'') ''https://h/a/https://h/b'' \<noteq> ''http://m'' @ ''/a/https://h/b''"
  by (simp add: map_url_def str_replace_def prefix_Cons)

section \<open>Facts about the file system operations\<close>

lemma mkdir_unfold:
  "mkdir f (c # cs) = Inr f' \<Longrightarrow>
     \<exists>f1. mkdir f (butlast (c # cs)) = Inr f1
        \<and> (f' = f1 \<or> (f1 (c # cs) = None \<and> f' = f1(c # cs \<mapsto> Dir)))"
  by (subst (asm) mkdir.simps(2)) (auto split: sum.splits option.splits node.splits)

lemma mkdir_outside:
  "mkdir f p = Inr f' \<Longrightarrow> \<not> prefix q p \<Longrightarrow> f' q = f q"
proof (induction f p arbitrary: f' rule: mkdir.induct)
  case (1 f)
  then show ?case by simp
next
  case (2 f c cs)
  from mkdir_unfold [OF "2.prems"(1)] obtain f1 where
    f1: "mkdir f (butlast (c # cs)) = Inr f1"
    and f': "f' = f1 \<or> (f1 (c # cs) = None \<and> f' = f1(c # cs \<mapsto> Dir))" by blast
  have "prefix (butlast (c # cs)) (c # cs)" by (rule prefixeq_butlast)
  with "2.prems"(2) have np: "\<not> prefix q (butlast (c # cs))"
    using prefix_order.order_trans by blast
  have "q \<noteq> c # cs" using "2.prems"(2) by auto
  with f' "2.IH" [OF f1 np] show ?case by auto
qed

lemma mkdir_keeps:
  "mkdir f p = Inr f' \<Longrightarrow> f q \<noteq> None \<Longrightarrow> f' q = f q"
proof (induction f p arbitrary: f' rule: mkdir.induct)
  case (1 f)
  then show ?case by simp
next
  case (2 f c cs)
  from mkdir_unfold [OF "2.prems"(1)] obtain f1 where
    f1: "mkdir f (butlast (c # cs)) = Inr f1"
    and f': "f' = f1 \<or> (f1 (c # cs) = None \<and> f' = f1(c # cs \<mapsto> Dir))" by blast
  from "2.IH" [OF f1 "2.prems"(2)] have "f1 q = f q" .
  with f' "2.prems"(2) show ?case by auto
qed

lemma mkdir_makes_dirs:
  "mkdir f p = Inr f' \<Longrightarrow> f' q = f q \<or> f' q = Some Dir"
proof (induction f p arbitrary: f' rule: mkdir.induct)
  case (1 f)
  then show ?case by simp
next
  case (2 f c cs)
  from mkdir_unfold [OF "2.prems"(1)] obtain f1 where
    f1: "mkdir f (butlast (c # cs)) = Inr f1"
    and f': "f' = f1 \<or> (f1 (c # cs) = None \<and> f' = f1(c # cs \<mapsto> Dir))" by blast
  from "2.IH" [OF f1] f' show ?case by auto
qed

lemma fold_fd_write:
  "fold (fd_write p) chunks (f(p \<mapsto> File c)) = f(p \<mapsto> File (c @ concat chunks))"
  by (induction chunks arbitrary: c) (simp_all add: fd_write_def)

subsection \<open>The suffix of a name\<close>

lemma path_suffix_split:
  "\<exists>stem. nm = stem @ path_suffix nm \<and> stem = take (length nm - length (path_suffix nm)) nm"
proof (cases "path_suffix nm = []")
  case True
  then show ?thesis by simp
next
  case False
  let ?P = "\<lambda>c. c \<noteq> CHR ''.''"
  let ?ext = "rev (takeWhile ?P (rev nm))"
  from False have dot: "CHR ''.'' \<in> set nm" and sfx: "path_suffix nm = CHR ''.'' # ?ext"
    by (auto simp: path_suffix_def Let_def split: if_splits)
  from dot have "dropWhile ?P (rev nm) \<noteq> []" by (simp add: dropWhile_eq_Nil_conv)
  then obtain d ds where d: "dropWhile ?P (rev nm) = d # ds" by (cases "dropWhile ?P (rev nm)") auto
  with hd_dropWhile [of ?P "rev nm"] have "d = CHR ''.''" by auto
  with d have "rev nm = takeWhile ?P (rev nm) @ CHR ''.'' # ds"
    using takeWhile_dropWhile_id [of ?P "rev nm"] by simp
  then have "rev (rev nm) = rev (takeWhile ?P (rev nm) @ CHR ''.'' # ds)" by simp
  then have "nm = rev ds @ path_suffix nm" by (simp add: sfx)
  moreover from this have "length nm = length (rev ds) + length (path_suffix nm)"
    by (metis length_append)
  ultimately show ?thesis by (metis append_eq_conv_conj add_diff_cancel_right')
qed

lemma with_suffix_shape:
  "with_suffix p sfx = Inr q \<Longrightarrow> p \<noteq> [] \<and> last p \<noteq> [] \<and> butlast q = butlast p \<and> q \<noteq> []
     \<and> length q = length p"
  by (auto simp: with_suffix_def Let_def split: if_splits)

lemma with_suffix_same:
  "with_suffix p ''.part'' = Inr p \<longleftrightarrow> p \<noteq> [] \<and> path_suffix (last p) = ''.part''"
proof
  assume same: "with_suffix p ''.part'' = Inr p"
  then have p: "p \<noteq> []" "last p \<noteq> []" by (auto dest: with_suffix_shape)
  obtain stem where stem: "last p = stem @ path_suffix (last p)"
    "stem = take (length (last p) - length (path_suffix (last p))) (last p)"
    using path_suffix_split by blast
  show "p \<noteq> [] \<and> path_suffix (last p) = ''.part''"
  proof (cases "path_suffix (last p) = []")
    case True
    with same p have "butlast p @ [last p @ ''.part''] = butlast p @ [last p]"
      by (simp add: with_suffix_def)
    then show ?thesis by simp
  next
    case False
    with same p have "butlast p @ [stem @ ''.part''] = butlast p @ [last p]"
      by (simp add: with_suffix_def Let_def stem(2))
    then have "stem @ ''.part'' = stem @ path_suffix (last p)" using stem(1) by simp
    with p show ?thesis by simp
  qed
next
  assume a: "p \<noteq> [] \<and> path_suffix (last p) = ''.part''"
  then have ne: "last p \<noteq> []" by (auto simp: path_suffix_def)
  obtain stem where stem: "last p = stem @ path_suffix (last p)"
    "stem = take (length (last p) - length (path_suffix (last p))) (last p)"
    using path_suffix_split by blast
  from a stem have "take (length (last p) - length (path_suffix (last p))) (last p) @ ''.part'' = last p"
    by metis
  with a ne show "with_suffix p ''.part'' = Inr p"
    by (simp add: with_suffix_def Let_def)
qed

section \<open>Files that are already there\<close>

lemma download_file_skip:
  assumes "path_exists (fs w) (destination @ path f)"
  shows "download_file client environ nm destination verbose dry_run f w
         = (Inr (), w\<lparr>stdout := stdout w
                       @ (if verbose then [Looking_for (destination @ path f)] else [])
                       @ [Found_skipping nm]\<rparr>)"
  using assms by (simp add: download_file_def print_def Let_def)

lemma download_files_skip:
  assumes "\<forall>f \<in> set fl. path_exists (fs w) (destination @ path f)"
  shows "fst (download_files client environ nm destination verbose dry_run fl w) = Inr ()
         \<and> fs (snd (download_files client environ nm destination verbose dry_run fl w)) = fs w
         \<and> requests (snd (download_files client environ nm destination verbose dry_run fl w))
           = requests w"
  using assms
proof (induction fl arbitrary: w)
  case Nil
  then show ?case by simp
next
  case (Cons g fl)
  let ?w = "w\<lparr>stdout := stdout w
                       @ (if verbose then [Looking_for (destination @ path g)] else [])
                       @ [Found_skipping nm]\<rparr>"
  have step: "download_file client environ nm destination verbose dry_run g w = (Inr (), ?w)"
    using Cons.prems by (simp add: download_file_skip)
  have "\<forall>f \<in> set fl. path_exists (fs ?w) (destination @ path f)"
    using Cons.prems by simp
  from Cons.IH [OF this] show ?case by (simp add: step)
qed

lemma retry_loop_skip:
  assumes "\<forall>f \<in> set (files model). path_exists (fs w) (destination @ path f)"
  shows "fs (snd (retry_loop client environ model destination verbose dry_run
                 continue_on_error k attempt w)) = fs w
       \<and> requests (snd (retry_loop client environ model destination verbose dry_run
                 continue_on_error k attempt w)) = requests w
       \<and> (0 < k \<or> continue_on_error \<longrightarrow>
            fst (retry_loop client environ model destination verbose dry_run
                 continue_on_error k attempt w) = Inr ())"
proof (cases k)
  case 0
  then show ?thesis by simp
next
  case (Suc j)
  obtain res w' where d: "download client environ model destination verbose dry_run w = (res, w')"
    by (cases "download client environ model destination verbose dry_run w")
  with download_files_skip [OF assms, of client environ "name model" verbose dry_run]
  have "res = Inr ()" "fs w' = fs w" "requests w' = requests w"
    by (simp_all add: download_def)
  with d show ?thesis by (simp add: Suc)
qed


lemma download_with_retry_skip:
  assumes "\<forall>f \<in> set (files model). path_exists (fs w) (destination @ path f)"
  shows "fs (snd (download_with_retry client environ model destination verbose dry_run
                 retry_attempts continue_on_error w)) = fs w
       \<and> requests (snd (download_with_retry client environ model destination verbose dry_run
                 retry_attempts continue_on_error w)) = requests w
       \<and> (0 < retry_attempts \<or> continue_on_error \<longrightarrow>
            fst (download_with_retry client environ model destination verbose dry_run
                 retry_attempts continue_on_error w) = Inr ())"
  using retry_loop_skip [OF assms, of client environ verbose dry_run continue_on_error
      "nat retry_attempts" 0]
  by (simp add: download_with_retry_def)

lemma main_loop_skip:
  assumes "\<forall>model \<in> set models. \<forall>f \<in> set (files model).
             path_exists (fs w) (destination @ path f)"
  shows "fs (snd (main_loop client environ destination verbose dry_run retry_attempts
                 continue_on_error models w)) = fs w
       \<and> requests (snd (main_loop client environ destination verbose dry_run retry_attempts
                 continue_on_error models w)) = requests w
       \<and> (0 < retry_attempts \<or> continue_on_error \<longrightarrow>
            fst (main_loop client environ destination verbose dry_run retry_attempts
                 continue_on_error models w) = Inr ())"
  using assms
proof (induction models arbitrary: w)
  case Nil
  then show ?case by simp
next
  case (Cons model models)
  define w1 where "w1 = (if verbose then print (Model_name (name model)) w else w)"
  have same: "fs w1 = fs w" "requests w1 = requests w"
    by (simp_all add: w1_def print_def)
  obtain res w2 where d: "download_with_retry client environ model destination verbose dry_run
              retry_attempts continue_on_error w1 = (res, w2)"
    by (cases "download_with_retry client environ model destination verbose dry_run
              retry_attempts continue_on_error w1")
  have "\<forall>f \<in> set (files model). path_exists (fs w1) (destination @ path f)"
    using Cons.prems same by simp
  from download_with_retry_skip [OF this, of client environ verbose dry_run
      retry_attempts continue_on_error] d
  have w2: "fs w2 = fs w" "requests w2 = requests w"
    and ok: "0 < retry_attempts \<or> continue_on_error \<longrightarrow> res = Inr ()"
    using same by simp_all
  have step: "main_loop client environ destination verbose dry_run retry_attempts
                 continue_on_error (model # models) w
      = (case res of Inl e \<Rightarrow> (Inl e, w2)
         | Inr u \<Rightarrow> main_loop client environ destination verbose dry_run retry_attempts
               continue_on_error models w2)"
    using d by (simp add: w1_def Let_def split: sum.splits)
  show ?case
  proof (cases res)
    case (Inl e)
    with ok w2 show ?thesis unfolding step by simp
  next
    case (Inr u)
    have "\<forall>m \<in> set models. \<forall>f \<in> set (files m). path_exists (fs w2) (destination @ path f)"
      using Cons.prems w2 by simp
    from Cons.IH [OF this] Inr w2 show ?thesis unfolding step by simp
  qed
qed

lemma main_fetch_skip:
  assumes "\<forall>model \<in> set models. \<forall>f \<in> set (files model).
             path_exists (fs w) (destination @ path f)"
  shows "fs (snd (main_fetch client environ destination verbose dry_run retry_attempts
                 continue_on_error models w)) = fs w
       \<and> requests (snd (main_fetch client environ destination verbose dry_run retry_attempts
                 continue_on_error models w)) = requests w
       \<and> (0 < retry_attempts \<or> continue_on_error \<longrightarrow>
            fst (main_fetch client environ destination verbose dry_run retry_attempts
                 continue_on_error models w) = Inr ())"
proof -
  define w1 where "w1 = (if models = [] then print No_models_selected w else w)"
  have same: "fs w1 = fs w" "requests w1 = requests w"
    by (simp_all add: w1_def print_def)
  have "\<forall>model \<in> set models. \<forall>f \<in> set (files model).
             path_exists (fs w1) (destination @ path f)"
    using assms same by simp
  from main_loop_skip [OF this, of client environ "verbose \<or> dry_run" dry_run retry_attempts
      continue_on_error] same
  show ?thesis by (simp add: main_fetch_def Let_def w1_def)
qed

section \<open>The download of one file\<close>


lemma save_response_failure:
  assumes "save_response resp T w = (Inl e, w')"
  shows "fs w' q = fs w q \<or> with_suffix T ''.part'' = Inr q"
  using assms
  by (cases resp)
    (auto simp: save_response_def open_wb_def Let_def fold_fd_write
      split: if_splits sum.splits option.splits node.splits)

lemma save_response_success:
  assumes "save_response resp T w = (Inr u, w')"
  shows "\<exists>status chunks part. resp = Response status chunks False \<and> status < 400
           \<and> with_suffix T ''.part'' = Inr part
           \<and> fs w' T = Some (File (concat chunks))
           \<and> (part \<noteq> T \<longrightarrow> fs w' part = None)
           \<and> (\<forall>q. q \<noteq> T \<longrightarrow> q \<noteq> part \<longrightarrow> fs w' q = fs w q)"
  using assms
  by (cases resp)
    (auto simp: save_response_def open_wb_def rename_def Let_def fold_fd_write
      split: if_splits sum.splits option.splits node.splits)


lemma download_file_absent:
  assumes "\<not> path_exists (fs w) (destination @ path f)"
  shows "download_file client environ nm destination verbose dry_run f w =
     (let T = destination @ path f;
          mapped = map_url environ (url f);
          w1 = w\<lparr>stdout := stdout w @ (if verbose then [Looking_for T, Downloading mapped] else [])\<rparr>
      in case mkdir (fs w) (butlast T) of
           Inl e \<Rightarrow> (Inl e, w1)
         | Inr f1 \<Rightarrow>
             if dry_run then (Inr (), w1\<lparr>fs := f1\<rparr>)
             else (case client (length (requests w)) mapped of
                     None \<Rightarrow> (Inl ClientConnectionError,
                                w1\<lparr>fs := f1, requests := requests w @ [mapped]\<rparr>)
                   | Some resp \<Rightarrow>
                       save_response resp T (w1\<lparr>fs := f1, requests := requests w @ [mapped]\<rparr>)))"
  using assms
  by (simp add: download_file_def print_def Let_def split: sum.splits option.splits)

lemma not_prefix_butlast: "p \<noteq> [] \<Longrightarrow> \<not> prefix p (butlast p)"
  using prefix_length_le [of p "butlast p"] by (cases p) auto

lemma mkdir_parent_frame:
  assumes "mkdir f (butlast T) = Inr f1" and "T \<noteq> []"
  shows "f1 T = f T" and "f1 q = f q \<or> (prefix q (butlast T) \<and> f1 q = Some Dir)"
proof -
  show "f1 T = f T"
    using mkdir_outside [OF assms(1) not_prefix_butlast [OF assms(2)]] .
  show "f1 q = f q \<or> (prefix q (butlast T) \<and> f1 q = Some Dir)"
    using mkdir_outside [OF assms(1), of q] mkdir_makes_dirs [OF assms(1), of q] by blast
qed

lemma download_file_failure:
  assumes "with_suffix (destination @ path f) ''.part'' \<noteq> Inr (destination @ path f)"
    and "download_file client environ nm destination verbose dry_run f w = (Inl e, w')"
  shows "\<not> path_exists (fs w') (destination @ path f)
         \<and> (\<forall>q. fs w' q = fs w q
                \<or> with_suffix (destination @ path f) ''.part'' = Inr q
                \<or> (prefix q (butlast (destination @ path f)) \<and> fs w' q = Some Dir))"
proof -
  let ?T = "destination @ path f"
  let ?mapped = "map_url environ (url f)"
  let ?w1 = "w\<lparr>stdout := stdout w @ (if verbose then [Looking_for ?T, Downloading ?mapped] else [])\<rparr>"
  have absent: "\<not> path_exists (fs w) ?T"
    using assms(2) by (auto simp: download_file_skip)
  then have T: "?T \<noteq> []" "fs w ?T = None" by (auto simp: path_exists_def)
  note unfold = download_file_absent [OF absent, of client environ nm verbose dry_run]
  have frame: "fs w' ?T = None
      \<and> (\<forall>q. fs w' q = fs w q \<or> with_suffix ?T ''.part'' = Inr q
             \<or> (prefix q (butlast ?T) \<and> fs w' q = Some Dir))"
  proof (cases "mkdir (fs w) (butlast ?T)")
    case (Inl e1)
    with assms(2) unfold have "w' = ?w1" by (simp add: Let_def)
    then show ?thesis using T by simp
  next
    case (Inr f1)
    note made = mkdir_parent_frame [OF Inr T(1)]
    from assms(2) unfold Inr have live: "\<not> dry_run" by (auto simp: Let_def)
    show ?thesis
    proof (cases "client (length (requests w)) ?mapped")
      case None
      with assms(2) unfold Inr live
      have "fs w' = f1" by (auto simp: Let_def)
      with made T show ?thesis by auto
    next
      case (Some resp)
      let ?w2 = "?w1\<lparr>fs := f1, requests := requests w @ [?mapped]\<rparr>"
      from assms(2) unfold Inr live Some
      have "save_response resp ?T ?w2 = (Inl e, w')" by (simp add: Let_def)
      note fail = save_response_failure [OF this]
      have "fs w' ?T = None"
        using fail [of ?T] assms(1) made(1) T(2) by simp
      moreover have "fs w' q = fs w q \<or> with_suffix ?T ''.part'' = Inr q
             \<or> (prefix q (butlast ?T) \<and> fs w' q = Some Dir)" for q
        using fail [of q] made(2) [of q] by auto
      ultimately show ?thesis by blast
    qed
  qed
  with T(1) show ?thesis by (simp add: path_exists_def)
qed


text \<open>
  Claim C4, amended. Take a file whose temporary path is not its target path, which is
  so unless the name of the target already ends in \<^verbatim>\<open>.part\<close>. If its download fails, by a
  status of 400 or more, a stream that breaks, a connection that fails or an error of
  the file system, then afterwards nothing exists at the target path. The file system
  differs from the one before at most at the temporary path and at the directories made
  above the target.
\<close>

theorem failed_download_leaves_no_target:
  assumes "with_suffix (destination @ path f) ''.part'' \<noteq> Inr (destination @ path f)"
    and "download_file client environ nm destination verbose dry_run f w = (Inl e, w')"
  shows "\<not> path_exists (fs w') (destination @ path f)
         \<and> (\<forall>q. fs w' q = fs w q
                \<or> with_suffix (destination @ path f) ''.part'' = Inr q
                \<or> (prefix q (butlast (destination @ path f)) \<and> fs w' q = Some Dir))"
  using assms by (rule download_file_failure)

theorem failed_download_leaves_no_target_witness:
  "fst (download_file broken_stream None ''clip'' [''dest''] False False clip_file empty_world)
     = Inl ClientPayloadError
   \<and> \<not> path_exists
        (fs (snd (download_file broken_stream None ''clip'' [''dest''] False False clip_file
                    empty_world)))
        ([''dest''] @ path clip_file)
   \<and> fs (snd (download_file broken_stream None ''clip'' [''dest''] False False clip_file
                 empty_world))
        [''dest'', ''models'', ''clip.part''] = Some (File ''ab'')"
proof -
  let ?r = "download_file broken_stream None ''clip'' [''dest''] False False clip_file empty_world"
  have distinct: "with_suffix ([''dest''] @ path clip_file) ''.part''
                  \<noteq> Inr ([''dest''] @ path clip_file)"
    by (simp add: with_suffix_def path_suffix_def clip_file_def)
  have failed: "fst ?r = Inl ClientPayloadError"
    by (simp add: fetch_defs broken_stream_def clip_file_def empty_world_def)
  have part: "fs (snd ?r) [''dest'', ''models'', ''clip.part''] = Some (File ''ab'')"
    by (simp add: fetch_defs broken_stream_def clip_file_def empty_world_def)
  from failed have "?r = (Inl ClientPayloadError, snd ?r)"
    by (simp add: prod_eq_iff)
  from failed_download_leaves_no_target [OF distinct this] failed part
  show ?thesis by simp
qed

text \<open>
  Claim C4 as stated fails for a target named \<^verbatim>\<open>x.part\<close>: its temporary path is the
  target path, so a stream that breaks leaves the bytes received so far at the target.
\<close>

theorem part_named_target_left_behind:
  "fst (download_file broken_stream None ''x'' [''dest''] False False part_named_file empty_world)
     = Inl ClientPayloadError
   \<and> fs (snd (download_file broken_stream None ''x'' [''dest''] False False part_named_file
                 empty_world))
        ([''dest''] @ path part_named_file) = Some (File ''ab'')
   \<and> path_exists
        (fs (snd (download_file broken_stream None ''x'' [''dest''] False False part_named_file
                    empty_world)))
        ([''dest''] @ path part_named_file)"
  by (simp add: fetch_defs broken_stream_def part_named_file_def empty_world_def)

lemma with_suffix_value:
  assumes "p \<noteq> []" and "last p \<noteq> []"
  shows "with_suffix p sfx
         = Inr (butlast p @ [take (length (last p) - length (path_suffix (last p))) (last p) @ sfx])"
  using assms by (simp add: with_suffix_def Let_def)

lemma download_file_success:
  assumes "download_file client environ nm destination verbose dry_run f w = (Inr u, w')"
    and "\<not> path_exists (fs w) (destination @ path f)"
    and "path_exists (fs w') (destination @ path f)"
  shows "\<exists>status chunks part.
           client (length (requests w)) (map_url environ (url f))
             = Some (Response status chunks False)
           \<and> status < 400
           \<and> with_suffix (destination @ path f) ''.part'' = Inr part
           \<and> fs w' (destination @ path f) = Some (File (concat chunks))
           \<and> (part \<noteq> destination @ path f \<longrightarrow> fs w' part = None)"
proof -
  let ?T = "destination @ path f"
  let ?mapped = "map_url environ (url f)"
  let ?w1 = "w\<lparr>stdout := stdout w @ (if verbose then [Looking_for ?T, Downloading ?mapped] else [])\<rparr>"
  from assms(2) have T: "?T \<noteq> []" "fs w ?T = None" by (auto simp: path_exists_def)
  note unfold = download_file_absent [OF assms(2), of client environ nm verbose dry_run]
  from assms(1) unfold obtain f1 where made: "mkdir (fs w) (butlast ?T) = Inr f1"
    by (cases "mkdir (fs w) (butlast ?T)") (auto simp: Let_def)
  have f1: "f1 ?T = None" using mkdir_parent_frame(1) [OF made T(1)] T(2) by simp
  have live: "\<not> dry_run"
  proof
    assume dry_run
    with assms(1) unfold made have "fs w' = f1" by (auto simp: Let_def)
    with f1 T(1) assms(3) show False by (simp add: path_exists_def)
  qed
  from assms(1) unfold made live obtain resp where
    resp: "client (length (requests w)) ?mapped = Some resp"
    by (cases "client (length (requests w)) ?mapped") (auto simp: Let_def)
  let ?w2 = "?w1\<lparr>fs := f1, requests := requests w @ [?mapped]\<rparr>"
  from assms(1) unfold made live resp
  have "save_response resp ?T ?w2 = (Inr u, w')" by (simp add: Let_def)
  from save_response_success [OF this] resp show ?thesis by blast
qed

text \<open>
  Claim C5, amended. Take a file whose target has a name that does not already end in
  the suffix \<^verbatim>\<open>.part\<close>. Its temporary path is the target path with the last suffix of
  the name replaced by \<^verbatim>\<open>.part\<close> (appended when the name has no suffix), and it differs
  from the target path. Whenever a download of the file makes the target exist, that
  download has returned without error, the response had a status below 400 and its
  stream ended, the target holds the whole body, and the temporary file is gone: the
  rename comes after the last chunk.
\<close>

theorem temporary_file_naming:
  assumes "T = destination @ path f" and "T \<noteq> []" and "last T \<noteq> []"
    and "path_suffix (last T) \<noteq> ''.part''"
  shows "with_suffix T ''.part''
           = Inr (butlast T
                  @ [take (length (last T) - length (path_suffix (last T))) (last T) @ ''.part''])
         \<and> with_suffix T ''.part'' \<noteq> Inr T
         \<and> (download_file client environ nm destination verbose dry_run f w = (res, w')
              \<and> \<not> path_exists (fs w) T \<and> path_exists (fs w') T
            \<longrightarrow> res = Inr ()
                \<and> (\<exists>status chunks.
                      client (length (requests w)) (map_url environ (url f))
                        = Some (Response status chunks False)
                      \<and> status < 400
                      \<and> fs w' T = Some (File (concat chunks)))
                \<and> (\<forall>part. with_suffix T ''.part'' = Inr part \<longrightarrow> fs w' part = None))"
proof -
  have named: "with_suffix T ''.part''
           = Inr (butlast T
                  @ [take (length (last T) - length (path_suffix (last T))) (last T) @ ''.part''])"
    using assms(2,3) by (rule with_suffix_value)
  have distinct: "with_suffix T ''.part'' \<noteq> Inr T"
    using assms(4) by (simp add: with_suffix_same)
  have "res = Inr ()
        \<and> (\<exists>status chunks.
              client (length (requests w)) (map_url environ (url f))
                = Some (Response status chunks False)
              \<and> status < 400
              \<and> fs w' T = Some (File (concat chunks)))
        \<and> (\<forall>part. with_suffix T ''.part'' = Inr part \<longrightarrow> fs w' part = None)"
    if run: "download_file client environ nm destination verbose dry_run f w = (res, w')"
      and before: "\<not> path_exists (fs w) T" and after: "path_exists (fs w') T"
  proof (cases res)
    case (Inl e)
    from distinct run Inl download_file_failure [of destination f client environ nm verbose dry_run w e w']
    have "\<not> path_exists (fs w') T" by (simp add: assms(1))
    with after show ?thesis by simp
  next
    case (Inr u)
    from download_file_success [of client environ nm destination verbose dry_run f w u w']
      run Inr before after
    obtain status chunks part where
      "client (length (requests w)) (map_url environ (url f)) = Some (Response status chunks False)"
      "status < 400" "with_suffix T ''.part'' = Inr part"
      "fs w' T = Some (File (concat chunks))" "part \<noteq> T \<longrightarrow> fs w' part = None"
      unfolding assms(1) by blast
    with distinct Inr show ?thesis by auto
  qed
  with named distinct show ?thesis by blast
qed

theorem temporary_file_naming_witness:
  "with_suffix ([''dest''] @ path clip_file) ''.part'' = Inr [''dest'', ''models'', ''clip.part'']
   \<and> with_suffix ([''dest''] @ path clip_file) ''.part'' \<noteq> Inr ([''dest''] @ path clip_file)
   \<and> fst (download_file serves_all None ''clip'' [''dest''] False False clip_file empty_world)
       = Inr ()
   \<and> fs (snd (download_file serves_all None ''clip'' [''dest''] False False clip_file empty_world))
        ([''dest''] @ path clip_file) = Some (File ''abcd'')
   \<and> fs (snd (download_file serves_all None ''clip'' [''dest''] False False clip_file empty_world))
        [''dest'', ''models'', ''clip.part''] = None"
proof -
  let ?T = "[''dest''] @ path clip_file"
  let ?r = "download_file serves_all None ''clip'' [''dest''] False False clip_file empty_world"
  have T: "?T = [''dest''] @ path clip_file" "?T \<noteq> []" "last ?T \<noteq> []"
    "path_suffix (last ?T) \<noteq> ''.part''"
    by (simp_all add: clip_file_def path_suffix_def)
  have run: "?r = (fst ?r, snd ?r)" by simp
  have before: "\<not> path_exists (fs empty_world) ?T"
    by (simp add: path_exists_def empty_world_def clip_file_def)
  have after: "path_exists (fs (snd ?r)) ?T"
    by (simp add: fetch_defs serves_all_def clip_file_def empty_world_def)
  have served: "serves_all (length (requests empty_world)) (map_url None (url clip_file))
                = Some (Response 200 [''ab'', ''cd''] False)"
    by (simp add: serves_all_def)
  have part: "with_suffix ?T ''.part'' = Inr [''dest'', ''models'', ''clip.part'']"
    by (simp add: with_suffix_def path_suffix_def clip_file_def)
  from temporary_file_naming [OF T, of serves_all None "''clip''" False False empty_world
      "fst ?r" "snd ?r"] run before after served part
  show ?thesis by auto
qed

text \<open>
  Claim C5 as stated fails for a target named \<^verbatim>\<open>x.part\<close>: its temporary path is the
  target path itself.
\<close>

theorem part_named_temporary_is_target:
  "with_suffix ([''dest''] @ path part_named_file) ''.part'' = Inr ([''dest''] @ path part_named_file)"
  by (simp add: with_suffix_def path_suffix_def part_named_file_def)

section \<open>Retrying the download of a model\<close>

lemma download_with_retry_first_failure:
  assumes "\<not> continue_on_error" and "0 < retry_attempts"
    and "download client environ model destination verbose dry_run w = (Inl e, w')"
  shows "download_with_retry client environ model destination verbose dry_run retry_attempts
           continue_on_error w
         = (Inl e, print (Error_downloading (name model) 0 e) w')"
proof -
  from assms(2) obtain k where "nat retry_attempts = Suc k"
    by (cases "nat retry_attempts") auto
  with assms(1,3) show ?thesis by (simp add: download_with_retry_def)
qed

lemma retry_loop_continue:
  "fst (retry_loop client environ model destination verbose dry_run True k attempt w) = Inr ()"
proof (induction k arbitrary: attempt w)
  case 0
  then show ?case by simp
next
  case (Suc k)
  show ?case
  proof (cases "download client environ model destination verbose dry_run w")
    case (Pair res w')
    then show ?thesis using Suc.IH by (cases res) (simp_all add: Let_def)
  qed
qed

lemma download_with_retry_continue:
  "fst (download_with_retry client environ model destination verbose dry_run retry_attempts
          True w) = Inr ()"
  by (simp add: download_with_retry_def retry_loop_continue)

lemma download_with_retry_no_attempts:
  "retry_attempts \<le> 0 \<Longrightarrow>
     download_with_retry client environ model destination verbose dry_run retry_attempts
       False w = (Inl RuntimeError, w)"
  by (simp add: download_with_retry_def)

text \<open>
  Claim C1, as the code has it. When \<^verbatim>\<open>continue_on_error\<close> is false and the retry count is
  at least one, a first attempt that fails ends \<^verbatim>\<open>download_with_retry\<close>: the exception
  of that attempt is raised again after it has been printed, and no second attempt is
  made, whatever the retry count. In the example the server fails the first request only,
  so a second attempt would have succeeded.
\<close>

theorem first_failure_is_raised:
  assumes "\<not> continue_on_error" and "0 < retry_attempts"
    and "download client environ model destination verbose dry_run w = (Inl e, w')"
  shows "download_with_retry client environ model destination verbose dry_run retry_attempts
           continue_on_error w
         = (Inl e, print (Error_downloading (name model) 0 e) w')"
  using assms by (rule download_with_retry_first_failure)

theorem first_failure_is_raised_witness:
  "fst (download_with_retry fails_once None clip_model [''dest''] False False 2 False empty_world)
     = Inl (ClientResponseError 500)
   \<and> requests (snd (download_with_retry fails_once None clip_model [''dest''] False False 2 False
                      empty_world)) = [''https://huggingface.co/clip'']
   \<and> fst (download fails_once None clip_model [''dest''] False False
            (snd (download_with_retry fails_once None clip_model [''dest''] False False 2 False
                    empty_world))) = Inr ()"
proof -
  let ?d = "download fails_once None clip_model [''dest''] False False empty_world"
  have failed: "fst ?d = Inl (ClientResponseError 500)"
    by (simp add: download_def clip_model_files fetch_defs fails_once_def clip_file_def
        empty_world_def)
  then have d: "?d = (Inl (ClientResponseError 500), snd ?d)" by (simp add: prod_eq_iff)
  have req: "requests (snd ?d) = [''https://huggingface.co/clip'']"
    by (simp add: download_def clip_model_files fetch_defs fails_once_def clip_file_def
        empty_world_def)
  have again: "fst (download fails_once None clip_model [''dest''] False False
                     (print (Error_downloading (name clip_model) 0 (ClientResponseError 500))
                        (snd ?d))) = Inr ()"
    by (simp add: download_def clip_model_files fetch_defs fails_once_def clip_file_def
        empty_world_def)
  have "download_with_retry fails_once None clip_model [''dest''] False False 2 False empty_world
        = (Inl (ClientResponseError 500),
           print (Error_downloading (name clip_model) 0 (ClientResponseError 500)) (snd ?d))"
    by (rule first_failure_is_raised [OF _ _ d]) simp_all
  with req again show ?thesis by (simp add: print_def)
qed

text \<open>With \<^verbatim>\<open>continue_on_error\<close> set the same download is tried a second time, and
  succeeds.\<close>

lemma retry_under_continue_on_error:
  "fst (download_with_retry fails_once None clip_model [''dest''] False False 2 True empty_world)
     = Inr ()
   \<and> fs (snd (download_with_retry fails_once None clip_model [''dest''] False False 2 True
                 empty_world)) [''dest'', ''models'', ''clip.safetensors'']
     = Some (File ''abcd'')
   \<and> requests (snd (download_with_retry fails_once None clip_model [''dest''] False False 2 True
                 empty_world))
     = [''https://huggingface.co/clip'', ''https://huggingface.co/clip'']"
  by (simp add: download_with_retry_def eval_nat_numeral download_def clip_model_files
      fetch_defs fails_once_def clip_file_def empty_world_def)

section \<open>A run that completes its files\<close>

lemma save_response_frame:
  assumes "save_response resp T w = (res, w')"
  shows "fs w' q = fs w q \<or> with_suffix T ''.part'' = Inr q \<or> (q = T \<and> fs w' q \<noteq> None)"
proof (cases res)
  case (Inl e)
  with assms save_response_failure [of resp T w e w' q] show ?thesis by blast
next
  case (Inr u)
  with assms save_response_success [of resp T w u w'] show ?thesis by force
qed

lemma download_file_keeps:
  assumes "download_file client environ nm destination verbose dry_run f w = (res, w')"
    and "path_exists (fs w) q"
    and "with_suffix (destination @ path f) ''.part'' \<noteq> Inr q"
  shows "path_exists (fs w') q"
proof (cases "path_exists (fs w) (destination @ path f)")
  case True
  with assms(1) have "fs w' = fs w" by (auto simp: download_file_skip)
  with assms(2) show ?thesis by simp
next
  case False
  let ?T = "destination @ path f"
  let ?mapped = "map_url environ (url f)"
  let ?w1 = "w\<lparr>stdout := stdout w @ (if verbose then [Looking_for ?T, Downloading ?mapped] else [])\<rparr>"
  from False have T: "?T \<noteq> []" by (auto simp: path_exists_def)
  note unfold = download_file_absent [OF False, of client environ nm verbose dry_run]
  show ?thesis
  proof (cases "mkdir (fs w) (butlast ?T)")
    case (Inl e1)
    with assms(1) unfold have "fs w' = fs w" by (auto simp: Let_def)
    with assms(2) show ?thesis by simp
  next
    case (Inr f1)
    have f1: "path_exists f1 q"
      using mkdir_parent_frame(2) [OF Inr T, of q] assms(2) by (auto simp: path_exists_def)
    show ?thesis
    proof (cases "dry_run \<or> client (length (requests w)) ?mapped = None")
      case True
      with assms(1) unfold Inr have "fs w' = f1" by (auto simp: Let_def split: if_splits)
      with f1 show ?thesis by simp
    next
      case False
      then obtain resp where resp: "client (length (requests w)) ?mapped = Some resp"
        and live: "\<not> dry_run" by auto
      let ?w2 = "?w1\<lparr>fs := f1, requests := requests w @ [?mapped]\<rparr>"
      from assms(1) unfold Inr live resp
      have "save_response resp ?T ?w2 = (res, w')" by (simp add: Let_def)
      from save_response_frame [OF this, of q] assms(3) f1
      show ?thesis by (auto simp: path_exists_def)
    qed
  qed
qed

lemma download_file_done:
  assumes "download_file client environ nm destination verbose dry_run f w = (Inr u, w')"
    and "\<not> dry_run"
  shows "path_exists (fs w') (destination @ path f)"
proof (cases "path_exists (fs w) (destination @ path f)")
  case True
  with assms(1) have "fs w' = fs w" by (auto simp: download_file_skip)
  with True show ?thesis by simp
next
  case False
  let ?T = "destination @ path f"
  let ?mapped = "map_url environ (url f)"
  let ?w1 = "w\<lparr>stdout := stdout w @ (if verbose then [Looking_for ?T, Downloading ?mapped] else [])\<rparr>"
  note unfold = download_file_absent [OF False, of client environ nm verbose dry_run]
  from assms(1) unfold obtain f1 where made: "mkdir (fs w) (butlast ?T) = Inr f1"
    by (cases "mkdir (fs w) (butlast ?T)") (auto simp: Let_def)
  from assms unfold made obtain resp where
    resp: "client (length (requests w)) ?mapped = Some resp"
    by (cases "client (length (requests w)) ?mapped") (auto simp: Let_def)
  let ?w2 = "?w1\<lparr>fs := f1, requests := requests w @ [?mapped]\<rparr>"
  from assms unfold made resp
  have "save_response resp ?T ?w2 = (Inr u, w')" by (simp add: Let_def)
  from save_response_success [OF this] show ?thesis by (auto simp: path_exists_def)
qed

lemma download_files_done:
  assumes "download_files client environ nm destination verbose dry_run fl w = (Inr u, w')"
    and "\<not> dry_run"
    and "\<forall>h \<in> set fl. \<forall>q \<in> Q \<union> (\<lambda>g. destination @ path g) ` set fl.
           with_suffix (destination @ path h) ''.part'' \<noteq> Inr q"
    and "\<forall>q \<in> Q. path_exists (fs w) q"
  shows "\<forall>q \<in> Q \<union> (\<lambda>g. destination @ path g) ` set fl. path_exists (fs w') q"
  using assms
proof (induction fl arbitrary: w Q)
  case Nil
  then show ?case by simp
next
  case (Cons g fl)
  obtain res w1 where step: "download_file client environ nm destination verbose dry_run g w = (res, w1)"
    by (cases "download_file client environ nm destination verbose dry_run g w")
  with Cons.prems(1) have res: "res = Inr ()"
    and rest: "download_files client environ nm destination verbose dry_run fl w1 = (Inr u, w')"
    by (auto split: sum.splits)
  let ?Q = "insert (destination @ path g) Q"
  have kept: "\<forall>q \<in> Q. path_exists (fs w1) q"
    using download_file_keeps [OF step] Cons.prems(3,4) by auto
  have here: "path_exists (fs w1) (destination @ path g)"
    using download_file_done [of client environ nm destination verbose dry_run g w "()" w1]
      step res Cons.prems(2) by simp
  have sep: "\<forall>h \<in> set fl. \<forall>q \<in> ?Q \<union> (\<lambda>g. destination @ path g) ` set fl.
           with_suffix (destination @ path h) ''.part'' \<noteq> Inr q"
    using Cons.prems(3) by auto
  from Cons.IH [OF rest Cons.prems(2) sep] kept here
  show ?case by auto
qed


lemma retry_loop_raise_success:
  assumes "retry_loop client environ model destination verbose dry_run False k attempt w
           = (Inr u, w')"
  shows "download client environ model destination verbose dry_run w = (Inr (), w')"
proof (cases k)
  case 0
  with assms show ?thesis by simp
next
  case (Suc j)
  obtain res w1 where d: "download client environ model destination verbose dry_run w = (res, w1)"
    by (cases "download client environ model destination verbose dry_run w")
  with assms Suc show ?thesis by (cases res) (simp_all add: Let_def)
qed

lemma main_loop_done:
  assumes "main_loop client environ destination verbose dry_run retry_attempts False models w
           = (Inr u, w')"
    and "\<not> dry_run"
    and "\<forall>m \<in> set models. \<forall>h \<in> set (files m).
           \<forall>q \<in> Q \<union> (\<Union>m' \<in> set models. (\<lambda>g. destination @ path g) ` set (files m')).
             with_suffix (destination @ path h) ''.part'' \<noteq> Inr q"
    and "\<forall>q \<in> Q. path_exists (fs w) q"
  shows "\<forall>q \<in> Q \<union> (\<Union>m' \<in> set models. (\<lambda>g. destination @ path g) ` set (files m')).
           path_exists (fs w') q"
  using assms
proof (induction models arbitrary: w Q)
  case Nil
  then show ?case by simp
next
  case (Cons model models)
  define w1 where "w1 = (if verbose then print (Model_name (name model)) w else w)"
  have w1: "fs w1 = fs w" by (simp add: w1_def print_def)
  obtain res w2 where d: "download_with_retry client environ model destination verbose dry_run
              retry_attempts False w1 = (res, w2)"
    by (cases "download_with_retry client environ model destination verbose dry_run
              retry_attempts False w1")
  have step: "main_loop client environ destination verbose dry_run retry_attempts
                 False (model # models) w
      = (case res of Inl e \<Rightarrow> (Inl e, w2)
         | Inr u \<Rightarrow> main_loop client environ destination verbose dry_run retry_attempts
               False models w2)"
    using d by (simp add: w1_def Let_def split: sum.splits)
  from Cons.prems(1) have res: "res = Inr ()"
    and rest: "main_loop client environ destination verbose dry_run retry_attempts
               False models w2 = (Inr u, w')"
    unfolding step by (cases res; simp)+
  from d res have "download client environ model destination verbose dry_run w1 = (Inr (), w2)"
    by (auto simp: download_with_retry_def dest: retry_loop_raise_success)
  then have files: "download_files client environ (name model) destination verbose dry_run
                      (files model) w1 = (Inr (), w2)"
    by (simp add: download_def)
  let ?here = "(\<lambda>g. destination @ path g) ` set (files model)"
  have sep1: "\<forall>h \<in> set (files model). \<forall>q \<in> Q \<union> ?here.
           with_suffix (destination @ path h) ''.part'' \<noteq> Inr q"
    using Cons.prems(3) by auto
  have "\<forall>q \<in> Q. path_exists (fs w1) q" using Cons.prems(4) w1 by simp
  from download_files_done [OF files Cons.prems(2) sep1 this]
  have kept: "\<forall>q \<in> Q \<union> ?here. path_exists (fs w2) q" .
  have sep2: "\<forall>m \<in> set models. \<forall>h \<in> set (files m).
           \<forall>q \<in> (Q \<union> ?here) \<union> (\<Union>m' \<in> set models. (\<lambda>g. destination @ path g) ` set (files m')).
             with_suffix (destination @ path h) ''.part'' \<noteq> Inr q"
    using Cons.prems(3) by auto
  from Cons.IH [OF rest Cons.prems(2) sep2 kept] show ?case by auto
qed

lemma main_fetch_done:
  assumes "main_fetch client environ destination verbose dry_run retry_attempts False models w
           = (Inr u, w')"
    and "\<not> dry_run"
    and "\<forall>m \<in> set models. \<forall>h \<in> set (files m). \<forall>m' \<in> set models. \<forall>g \<in> set (files m').
           with_suffix (destination @ path h) ''.part'' \<noteq> Inr (destination @ path g)"
  shows "\<forall>m \<in> set models. \<forall>g \<in> set (files m). path_exists (fs w') (destination @ path g)"
proof -
  define w1 where "w1 = (if models = [] then print No_models_selected w else w)"
  from assms(1) have run: "main_loop client environ destination (verbose \<or> dry_run) dry_run
      retry_attempts False models w1 = (Inr u, w')"
    by (simp add: main_fetch_def Let_def w1_def)
  have sep: "\<forall>m \<in> set models. \<forall>h \<in> set (files m).
           \<forall>q \<in> {} \<union> (\<Union>m' \<in> set models. (\<lambda>g. destination @ path g) ` set (files m')).
             with_suffix (destination @ path h) ''.part'' \<noteq> Inr q"
    using assms(3) by auto
  have "\<forall>q \<in> {}. path_exists (fs w1) q" by simp
  from main_loop_done [OF run assms(2) sep this] show ?thesis by auto
qed

lemma main_fetch_twice:
  assumes "main_fetch client environ destination verbose dry_run retry_attempts False models w
           = (Inr u, w')"
    and "\<not> dry_run"
    and "\<forall>m \<in> set models. \<forall>h \<in> set (files m). \<forall>m' \<in> set models. \<forall>g \<in> set (files m').
           with_suffix (destination @ path h) ''.part'' \<noteq> Inr (destination @ path g)"
  shows "requests (snd (main_fetch client environ destination verbose dry_run retry_attempts
                          False models w')) = requests w'
         \<and> fs (snd (main_fetch client environ destination verbose dry_run retry_attempts
                          False models w')) = fs w'"
  using main_fetch_skip [OF main_fetch_done [OF assms], of client environ verbose dry_run
      retry_attempts False]
  by simp
















end
